theory Spec2Isabelle
  imports Main "HOL-Library.Char_ord" "HOL-Library.List_Lexorder" "HOL-Library.Multiset"
begin

section \<open>Python values and errors\<close>

text \<open>
  The driver \<^verbatim>\<open>build.py\<close> is a Python script. Exceptions are values of
  \<open>py_error\<close>; a computation that may raise returns \<open>py_error + 'a\<close>.
  Lengths, offsets and range elements are non-negative in every computation below
  (they come from \<^verbatim>\<open>len\<close> and from ranges starting at 0 with a
  non-negative step), so they are natural numbers.
\<close>

datatype py_error = ValueError | IndexError | KeyError | NameError string | OrderingError

text \<open>
  \<^verbatim>\<open>range(start, stop, step)\<close> for \<open>step \<ge> 0\<close>: step 0 raises ValueError;
  otherwise the elements are \<open>start + k * step\<close> for all \<open>k\<close> with
  \<open>start + k * step < stop\<close>.
\<close>

definition py_range :: "nat \<Rightarrow> nat \<Rightarrow> nat \<Rightarrow> py_error + nat list" where
  "py_range start stop step =
     (if step = 0 then Inl ValueError
      else Inr (map (\<lambda>k. start + k * step) [0..<(stop - start + step - 1) div step]))"

text \<open>\<^verbatim>\<open>xs[start:stop]\<close> for non-negative bounds; both bounds clamp at the length.\<close>

definition py_slice :: "'a list \<Rightarrow> nat \<Rightarrow> nat \<Rightarrow> 'a list" where
  "py_slice xs start stop = drop start (take stop xs)"

section \<open>The per-feed chunking loop (build.py, lines 67 to 78)\<close>

text \<open>
  \<^verbatim>\<open>
    n_segments = 4
    n_messages = len(feedlist)
    step_size = len(feedlist) // n_segments
    offsets = list(range(0, n_messages, n_messages // n_segments))[1:]
    chunk_offsets = list(zip(list(range(0, n_messages, step_size)[:-1]),
                             list(range(0, n_messages, step_size)[1:])))
    chunk_offsets[-1] = (chunk_offsets[-1][0], len(feedlist))
    chunks = [feedlist[start:stop] for (start, stop) in chunk_offsets]
  \<close>
  The assignment to \<^verbatim>\<open>chunk_offsets[-1]\<close> raises IndexError on an empty list.
\<close>

definition chunk_offsets :: "'a list \<Rightarrow> py_error + (nat \<times> nat) list" where
  "chunk_offsets feedlist =
     (let n_segments = 4;
          n_messages = length feedlist;
          step_size = length feedlist div n_segments
      in case py_range 0 n_messages (n_messages div n_segments) of
           Inl e \<Rightarrow> Inl e
         | Inr r0 \<Rightarrow>
             (let offsets = tl r0
              in case py_range 0 n_messages step_size of
                   Inl e \<Rightarrow> Inl e
                 | Inr r \<Rightarrow>
                     (let co = zip (butlast r) (tl r)
                      in if co = [] then Inl IndexError
                         else Inr (co[length co - 1 :=
                                       (fst (co ! (length co - 1)), length feedlist)]))))"

definition chunks :: "'a list \<Rightarrow> py_error + 'a list list" where
  "chunks feedlist =
     (case chunk_offsets feedlist of
        Inl e \<Rightarrow> Inl e
      | Inr co \<Rightarrow> Inr (map (\<lambda>(start, stop). py_slice feedlist start stop) co))"

text \<open>Each interval starts where the previous one ends.\<close>

fun contiguous :: "(nat \<times> nat) list \<Rightarrow> bool" where
  "contiguous [] = True"
| "contiguous [p] = True"
| "contiguous (p # q # ps) = (snd p = fst q \<and> contiguous (q # ps))"

section \<open>Filename parsing and grouping by feed (build.py, lines 23 to 65)\<close>

text \<open>
  \<^verbatim>\<open>s.find(c)\<close> for a one-character \<^verbatim>\<open>c\<close>: the index of the first occurrence,
  or \<open>-1\<close> when there is none.
\<close>

fun py_find_from :: "string \<Rightarrow> char \<Rightarrow> nat \<Rightarrow> int" where
  "py_find_from [] c i = - 1"
| "py_find_from (x # xs) c i = (if x = c then int i else py_find_from xs c (Suc i))"

definition py_find :: "string \<Rightarrow> char \<Rightarrow> int" where
  "py_find s c = py_find_from s c 0"

text \<open>
  \<^verbatim>\<open>xs[:i]\<close> and \<^verbatim>\<open>xs[i:]\<close> for an integer \<open>i\<close>: a negative index counts from
  the end, and every bound clamps to the list.
\<close>

definition slice_to :: "'a list \<Rightarrow> int \<Rightarrow> 'a list" where
  "slice_to xs i = (if i < 0 then take (nat (int (length xs) + i)) xs else take (nat i) xs)"

definition slice_from :: "'a list \<Rightarrow> int \<Rightarrow> 'a list" where
  "slice_from xs i = (if i < 0 then drop (nat (int (length xs) + i)) xs else drop (nat i) xs)"

text \<open>
  \<^verbatim>\<open>
  def splitname(name):
      origname = name
      name = name[5:]
      first_splitter_idx = name.find('_')
      trainlines = name[:first_splitter_idx]
      name = name[first_splitter_idx + 1:]
      second_splitter_idx = name.find('_')
      date = name[:second_splitter_idx]
      name = name[second_splitter_idx + 1:][:-5]
      return origname, trainlines
  \<close>
\<close>

definition splitname :: "string \<Rightarrow> string \<times> string" where
  "splitname name0 =
     (let origname = name0;
          name1 = slice_from name0 5;
          first_splitter_idx = py_find name1 CHR ''_'';
          trainlines = slice_to name1 first_splitter_idx;
          name2 = slice_from name1 (first_splitter_idx + 1);
          second_splitter_idx = py_find name2 CHR ''_'';
          date = slice_to name2 second_splitter_idx;
          name3 = slice_to (slice_from name2 (second_splitter_idx + 1)) (- 5)
      in (origname, trainlines))"

text \<open>
  \<^verbatim>\<open>
  messageinfo = list(map(splitname, sorted(os.listdir(f'{OUTPUT_DIR}/20190601/'))))
  unique_feeds = set([feed_identifier for (filename, feed_identifier) in messageinfo])
  feed_message_map = dict()
  for feed in unique_feeds:
      feed_message_map.update({
          feed: sorted([
              './data/20190601/' + filename for\
              (filename, feed_identifier) in messageinfo if feed_identifier == feed
          ])
      })
  \<close>
  The directory listing is a parameter. Strings are compared by code point, lists of
  characters lexicographically, as Python's \<^verbatim>\<open>sorted\<close> does. The order in which
  the loop visits the set \<^verbatim>\<open>unique_feeds\<close> is not fixed by Python, so the loop takes
  the visiting order \<open>feeds\<close> as an argument.
\<close>

definition messageinfo :: "string list \<Rightarrow> (string \<times> string) list" where
  "messageinfo listing = map splitname (sort listing)"


definition feed_files :: "(string \<times> string) list \<Rightarrow> string \<Rightarrow> string list" where
  "feed_files mi feed =
     sort (map (\<lambda>(filename, feed_identifier). ''./data/20190601/'' @ filename)
             (filter (\<lambda>(filename, feed_identifier). feed_identifier = feed) mi))"

definition feed_message_map :: "string list \<Rightarrow> string list \<Rightarrow> (string \<rightharpoonup> string list)" where
  "feed_message_map feeds listing =
     fold (\<lambda>feed m. m(feed \<mapsto> feed_files (messageinfo listing) feed)) feeds Map.empty"

section \<open>Parsing the chunks of one feed (build.py, lines 96 to 117)\<close>

text \<open>
  \<^verbatim>\<open>
  chunks = feed_message_map[feed_identifier]
  sublogs, sublogs_timestamps, sublogs_parse_errors = [], [], []
  for chunk in chunks:
      messages = []
      for filename in chunk:
          with open(filename, 'rb') as fp:
              messages.append(fp.read())
      sublog, sublog_timestamps, sublog_parse_errors = gt.logify(messages)
      sublogs.append(sublog)
      sublogs_timestamps.append(sublog_timestamps)
      sublogs_parse_errors.append(sublog_parse_errors)
  logbooks[feed_identifier], _ = gt.ops.merge_logbooks(list(zip(sublogs, sublogs_timestamps)))
  parse_errors[feed_identifier] = list(itertools.chain(*sublogs_parse_errors))
  \<close>
  \<^verbatim>\<open>gt.logify\<close> and \<^verbatim>\<open>gt.ops.merge_logbooks\<close> belong to the imported package
  \<^verbatim>\<open>gtfs_tripify\<close> and are parameters here, with the contracts the specification
  gives them: \<open>logify\<close> returns a logbook, the timestamps and the parse errors as data;
  \<open>merge_logbooks\<close> returns the merged pair or fails. The contents of the files are the
  parameter \<open>read_file\<close>; \<open>chunk_list\<close> is the variable \<^verbatim>\<open>chunks\<close>.
\<close>

definition read_messages :: "(string \<Rightarrow> 'm) \<Rightarrow> string list \<Rightarrow> 'm list" where
  "read_messages read_file chunk =
     fold (\<lambda>filename messages. messages @ [read_file filename]) chunk []"

fun parse_chunks ::
  "(string \<Rightarrow> 'm) \<Rightarrow> ('m list \<Rightarrow> 'l \<times> 't \<times> 'e list) \<Rightarrow> string list list
     \<Rightarrow> 'l list \<times> 't list \<times> 'e list list \<Rightarrow> 'l list \<times> 't list \<times> 'e list list" where
  "parse_chunks read_file logify [] acc = acc"
| "parse_chunks read_file logify (chunk # rest) (sublogs, sublogs_timestamps, sublogs_parse_errors) =
     (let messages = read_messages read_file chunk;
          (sublog, sublog_timestamps, sublog_parse_errors) = logify messages
      in parse_chunks read_file logify rest
           (sublogs @ [sublog], sublogs_timestamps @ [sublog_timestamps],
            sublogs_parse_errors @ [sublog_parse_errors]))"

definition process_feed ::
  "(string \<Rightarrow> 'm) \<Rightarrow> ('m list \<Rightarrow> 'l \<times> 't \<times> 'e list)
     \<Rightarrow> (('l \<times> 't) list \<Rightarrow> py_error + 'l \<times> 't) \<Rightarrow> string list list
     \<Rightarrow> py_error + 'l \<times> 'e list" where
  "process_feed read_file logify merge_logbooks chunk_list =
     (case parse_chunks read_file logify chunk_list ([], [], []) of
        (sublogs, sublogs_timestamps, sublogs_parse_errors) \<Rightarrow>
          (case merge_logbooks (zip sublogs sublogs_timestamps) of
             Inl e \<Rightarrow> Inl e
           | Inr (logbook, _) \<Rightarrow> Inr (logbook, concat sublogs_parse_errors)))"

section \<open>The stop-name lookup (build.py, lines 126 to 130)\<close>

text \<open>
  \<^verbatim>\<open>
  def get_stop_name_for_stop_id(stop_id):
      if stop_id in stops.index:
          return stops.loc[stop_id].stop_name
      else:  # the stop id is an unknown one
          return None
  \<close>
  The table \<^verbatim>\<open>stops\<close> is a parameter: its rows in file order, each the index label
  \<^verbatim>\<open>stop_id\<close> with the row's \<^verbatim>\<open>stop_name\<close>. For a label carried by one row
  \<^verbatim>\<open>stops.loc[stop_id].stop_name\<close> is that row's name; for a label carried by several
  rows it is the column of their names.
\<close>

datatype name_value = Scalar string | Series "string list"

definition loc_stop_name :: "(string \<times> string) list \<Rightarrow> string \<Rightarrow> name_value" where
  "loc_stop_name stops stop_id =
     (case filter (\<lambda>row. fst row = stop_id) stops of
        [row] \<Rightarrow> Scalar (snd row)
      | rows \<Rightarrow> Series (map snd rows))"

definition get_stop_name_for_stop_id :: "(string \<times> string) list \<Rightarrow> string \<Rightarrow> name_value option" where
  "get_stop_name_for_stop_id stops stop_id =
     (if stop_id \<in> set (map fst stops) then Some (loc_stop_name stops stop_id) else None)"

section \<open>The logbook builder and the cancellation cutter (package gtfs_tripify)\<close>

text \<open>
  Modelled from the spec: the bodies of \<^verbatim>\<open>gt.logify\<close> and
  \<^verbatim>\<open>gt.ops.cut_cancellations\<close>, which build.py calls at lines 109 and 121, are in
  the imported package \<^verbatim>\<open>gtfs_tripify\<close> and not among the sources. The types below
  are the data model of section 3 of the specification. The fields of a record in a
  logbook carry the prefix \<open>rec_\<close> where an update has a field of the same name.
\<close>

datatype record_status = Scheduled | Arrived | Departed | Skipped

record TripStopUpdate =
  trip_id :: string
  stop_id :: string
  stop_sequence :: int
  arrival_estimate :: "int option"
  departure_estimate :: "int option"
  is_observed :: bool

record TripRecord =
  rec_trip_id :: string
  rec_stop_id :: string
  rec_stop_sequence :: int
  first_seen_estimate :: "int option"
  last_seen_estimate :: "int option"
  finalized_time :: "int option"
  status :: record_status

record DecodedSnapshot =
  timestamp :: int
  updates :: "TripStopUpdate list"

type_synonym Logbook = "string \<rightharpoonup> TripRecord list"

text \<open>
  Modelled from the spec: "the estimate" of an update, which section 4.2 uses without
  saying which of the two optional estimates of section 3 it is. Here it is the arrival
  estimate where there is one (an observed one marks the record \<open>Arrived\<close>), and the
  departure estimate otherwise (\<open>Departed\<close>).
\<close>

definition estimate :: "TripStopUpdate \<Rightarrow> (int \<times> record_status) option" where
  "estimate u =
     (case arrival_estimate u of
        Some t \<Rightarrow> Some (t, Arrived)
      | None \<Rightarrow> (case departure_estimate u of Some t \<Rightarrow> Some (t, Departed) | None \<Rightarrow> None))"

text \<open>
  Modelled from the spec: section 4.2, step 1, the record created on the first sighting
  of a trip and stop pair.
\<close>

definition new_record :: "TripStopUpdate \<Rightarrow> TripRecord" where
  "new_record u =
     \<lparr>rec_trip_id = trip_id u, rec_stop_id = stop_id u, rec_stop_sequence = stop_sequence u,
      first_seen_estimate = map_option fst (estimate u),
      last_seen_estimate = map_option fst (estimate u),
      finalized_time = None, status = Scheduled\<rparr>"

text \<open>
  Modelled from the spec: section 4.2, steps 2 to 4. An update for a record whose
  \<open>finalized_time\<close> is set is discarded; an observed update sets \<open>finalized_time\<close> from
  the estimate and the status with it; any other update overwrites
  \<open>last_seen_estimate\<close> and leaves \<open>first_seen_estimate\<close>.
\<close>

definition apply_update :: "TripRecord \<Rightarrow> TripStopUpdate \<Rightarrow> TripRecord" where
  "apply_update r u =
     (if finalized_time r \<noteq> None then r
      else if is_observed u then
        (case estimate u of
           Some (t, s) \<Rightarrow> r\<lparr>finalized_time := Some t, status := s\<rparr>
         | None \<Rightarrow> r)
      else r\<lparr>last_seen_estimate := map_option fst (estimate u)\<rparr>)"

text \<open>
  Modelled from the spec: section 4.2, step 1, "locate or create the TripRecord for
  (trip_id, stop_sequence)". The records of a trip are kept in the order of their stop
  sequence (section 3): a located record is revised in place, a new one is inserted at
  its place in that order.
\<close>

fun revise_first :: "TripStopUpdate \<Rightarrow> TripRecord list \<Rightarrow> TripRecord list" where
  "revise_first u [] = []"
| "revise_first u (r # rs) =
     (if rec_stop_sequence r = stop_sequence u then apply_update r u # rs
      else r # revise_first u rs)"

definition fold_update :: "Logbook \<Rightarrow> TripStopUpdate \<Rightarrow> Logbook" where
  "fold_update L u =
     (let rs = (case L (trip_id u) of None \<Rightarrow> [] | Some rs \<Rightarrow> rs)
      in L(trip_id u \<mapsto>
           (case find (\<lambda>r. rec_stop_sequence r = stop_sequence u) rs of
              Some r \<Rightarrow> revise_first u rs
            | None \<Rightarrow> insort_key rec_stop_sequence (apply_update (new_record u) u) rs)))"

text \<open>
  Modelled from the spec: section 4.2, the fold of the decoded snapshots, in the order
  given, each with its updates in their order.
\<close>

definition fold_snapshot :: "Logbook \<Rightarrow> DecodedSnapshot \<Rightarrow> Logbook" where
  "fold_snapshot L snap = fold (\<lambda>u L'. fold_update L' u) (updates snap) L"

definition fold_snapshots :: "Logbook \<Rightarrow> DecodedSnapshot list \<Rightarrow> Logbook" where
  "fold_snapshots L snaps = fold (\<lambda>snap L'. fold_snapshot L' snap) snaps L"

definition find_record :: "Logbook \<Rightarrow> string \<Rightarrow> int \<Rightarrow> TripRecord option" where
  "find_record L tid sq =
     (case L tid of None \<Rightarrow> None | Some rs \<Rightarrow> find (\<lambda>r. rec_stop_sequence r = sq) rs)"

text \<open>
  Modelled from the spec: section 4.4. A record left \<open>Scheduled\<close> while a record of the
  same trip with a later stop sequence was finalized is removed; every other record is
  kept.
\<close>

definition is_cancelled :: "TripRecord list \<Rightarrow> TripRecord \<Rightarrow> bool" where
  "is_cancelled rs r =
     (status r = Scheduled
      \<and> list_ex (\<lambda>r'. rec_stop_sequence r < rec_stop_sequence r' \<and> finalized_time r' \<noteq> None) rs)"

definition cut_trip :: "TripRecord list \<Rightarrow> TripRecord list" where
  "cut_trip rs = filter (\<lambda>r. \<not> is_cancelled rs r) rs"

definition cut_cancellations :: "Logbook \<Rightarrow> Logbook" where
  "cut_cancellations L = (\<lambda>tid. map_option cut_trip (L tid))"

section \<open>The names the script binds and reads (build.py, lines 1 to 141)\<close>

text \<open>
  A name that a statement reads and that is bound neither in the module's namespace nor
  among the builtins raises NameError. Each statement of the script is listed with its
  line, the global names it reads, in the order Python evaluates them, and the names it
  binds. The names read inside the body of a \<^verbatim>\<open>def\<close> are read when the function is
  called, not where it is defined, and the variables of a comprehension are local to it.
  The statements of a loop or \<^verbatim>\<open>with\<close> body follow their header in source order.
\<close>

datatype stmt = Stmt (line: nat) (loads: "string list") (stores: "string list")

text \<open>The builtins the script uses; \<^verbatim>\<open>pd\<close> is not a builtin of Python.\<close>

definition builtins :: "string list" where
  "builtins = [''list'', ''map'', ''sorted'', ''set'', ''dict'', ''len'', ''range'', ''zip'',
               ''print'', ''open'']"

text \<open>Lines 1 to 121: the imports, the extraction, the grouping, the chunking, the parsing.\<close>

definition before_export :: "stmt list" where
  "before_export =
     [Stmt 1 [] [''ZipFile''],
      Stmt 2 [] [''os''],
      Stmt 3 [] [''datetime''],
      Stmt 4 [] [''warnings''],
      Stmt 5 [] [''time''],
      Stmt 6 [] [''itertools''],
      Stmt 8 [] [''gt''],
      Stmt 11 [] [''OUTPUT_DIR''],
      Stmt 12 [''os''] [''PATH_TO_GTFS_RT_ARCHIVE_FILE''],
      Stmt 13 [''os''] [''PATH_TO_GTFS_ARCHIVE_FILE''],
      Stmt 18 [''ZipFile'', ''os'', ''OUTPUT_DIR'', ''OUTPUT_DIR''] [],
      Stmt 21 [''ZipFile'', ''OUTPUT_DIR''] [],
      Stmt 23 [] [''splitname''],
      Stmt 56 [''list'', ''map'', ''splitname'', ''sorted'', ''os'', ''OUTPUT_DIR''] [''messageinfo''],
      Stmt 57 [''set'', ''messageinfo''] [''unique_feeds''],
      Stmt 58 [''dict''] [''feed_message_map''],
      Stmt 59 [''unique_feeds''] [''feed''],
      Stmt 60 [''feed_message_map'', ''feed'', ''sorted'', ''messageinfo'', ''feed''] [],
      Stmt 67 [''feed_message_map''] [''feed_identifier''],
      Stmt 68 [''feed_message_map'', ''feed_identifier''] [''feedlist''],
      Stmt 70 [] [''n_segments''],
      Stmt 71 [''len'', ''feedlist''] [''n_messages''],
      Stmt 72 [''len'', ''feedlist'', ''n_segments''] [''step_size''],
      Stmt 73 [''list'', ''range'', ''n_messages'', ''n_messages'', ''n_segments''] [''offsets''],
      Stmt 74 [''list'', ''zip'', ''list'', ''range'', ''n_messages'', ''step_size'',
               ''list'', ''range'', ''n_messages'', ''step_size''] [''chunk_offsets''],
      Stmt 76 [''chunk_offsets'', ''len'', ''feedlist'', ''chunk_offsets''] [],
      Stmt 77 [''chunk_offsets'', ''feedlist''] [''chunks''],
      Stmt 78 [''chunks'', ''feed_message_map'', ''feed_identifier''] [],
      Stmt 80 [''dict''] [''logbooks''],
      Stmt 81 [''dict''] [''timestamps''],
      Stmt 82 [''dict''] [''parse_errors''],
      Stmt 95 [''print'', ''datetime'', ''time''] [],
      Stmt 96 [] [''feed_identifier''],
      Stmt 97 [''feed_message_map'', ''feed_identifier''] [''chunks''],
      Stmt 98 [] [''sublogs'', ''sublogs_timestamps'', ''sublogs_parse_errors''],
      Stmt 100 [''chunks''] [''chunk''],
      Stmt 101 [] [''messages''],
      Stmt 103 [''chunk''] [''filename''],
      Stmt 104 [''open'', ''filename''] [''fp''],
      Stmt 105 [''messages'', ''fp''] [],
      Stmt 107 [''warnings''] [],
      Stmt 108 [''warnings''] [],
      Stmt 109 [''gt'', ''messages''] [''sublog'', ''sublog_timestamps'', ''sublog_parse_errors''],
      Stmt 111 [''sublogs'', ''sublog''] [],
      Stmt 112 [''sublogs_timestamps'', ''sublog_timestamps''] [],
      Stmt 113 [''sublogs_parse_errors'', ''sublog_parse_errors''] [],
      Stmt 114 [''print'', ''datetime'', ''time''] [],
      Stmt 116 [''gt'', ''list'', ''zip'', ''sublogs'', ''sublogs_timestamps'',
                ''logbooks'', ''feed_identifier''] [''_''],
      Stmt 117 [''list'', ''itertools'', ''sublogs_parse_errors'', ''parse_errors'',
                ''feed_identifier''] [],
      Stmt 121 [''gt'', ''logbooks'', ''logbooks''] []]"

text \<open>
  Lines 124 to 141, the export stage: the read of the stops table, the definition of the
  lookup, the annotation loop (lines 135 to 139) and the CSV export (line 141).
\<close>

definition export_stage :: "stmt list" where
  "export_stage =
     [Stmt 124 [''pd'', ''PATH_TO_GTFS_ARCHIVE_FILE''] [''stops''],
      Stmt 126 [] [''get_stop_name_for_stop_id''],
      Stmt 135 [''logbooks''] [''unique_trip_id''],
      Stmt 136 [''logbooks'', ''unique_trip_id''] [''df''],
      Stmt 137 [''df'', ''get_stop_name_for_stop_id''] [''stop_names''],
      Stmt 138 [''df'', ''stop_names''] [''df''],
      Stmt 139 [''df'', ''logbooks'', ''unique_trip_id''] [],
      Stmt 141 [''gt'', ''logbooks'', ''OUTPUT_DIR''] []]"

text \<open>
  Running statements in a namespace: the lines of the statements performed, and the
  namespace at the end or the NameError of the first name read and not bound.
\<close>

fun run_stmts :: "string list \<Rightarrow> stmt list \<Rightarrow> nat list \<times> (py_error + string list)" where
  "run_stmts ns [] = ([], Inr ns)"
| "run_stmts ns (st # rest) =
     (case find (\<lambda>x. x \<notin> set (ns @ builtins)) (loads st) of
        Some x \<Rightarrow> ([], Inl (NameError x))
      | None \<Rightarrow>
          (case run_stmts (stores st @ ns) rest of
             (performed, res) \<Rightarrow> (line st # performed, res)))"

section \<open>Properties of the chunking loop\<close>

lemma range_len_iff:
  fixes step :: nat
  assumes s: "0 < step"
  shows "k < (stop - start + step - 1) div step \<longleftrightarrow> start + k * step < stop"
proof -
  have "k < (stop - start + step - 1) div step \<longleftrightarrow> Suc k \<le> (stop - start + step - 1) div step"
    by arith
  also have "\<dots> \<longleftrightarrow> Suc k * step \<le> stop - start + step - 1"
    using s by (simp only: less_eq_div_iff_mult_less_eq)
  also have "\<dots> \<longleftrightarrow> k * step < stop - start"
    using s by (cases step) auto
  also have "\<dots> \<longleftrightarrow> start + k * step < stop" by auto
  finally show ?thesis .
qed

lemma py_range_set:
  assumes "0 < step" and "py_range start stop step = Inr r"
  shows "set r = {x. \<exists>k. x = start + k * step \<and> x < stop}"
proof -
  let ?m = "(stop - start + step - 1) div step"
  from assms have r: "r = map (\<lambda>k. start + k * step) [0..<?m]"
    by (simp add: py_range_def)
  have "set r = (\<lambda>k. start + k * step) ` {k. k < ?m}"
    unfolding r by (simp add: atLeast0LessThan lessThan_def)
  also have "{k. k < ?m} = {k. start + k * step < stop}"
    using range_len_iff[OF assms(1), of _ stop start] by simp
  also have "(\<lambda>k. start + k * step) ` {k. start + k * step < stop}
             = {x. \<exists>k. x = start + k * step \<and> x < stop}"
    by blast
  finally show ?thesis .
qed

lemma contiguous_iff:
  "contiguous ps \<longleftrightarrow> (\<forall>i. Suc i < length ps \<longrightarrow> snd (ps ! i) = fst (ps ! Suc i))"
proof (induction ps rule: contiguous.induct)
  case 1 show ?case by simp
next
  case (2 p) show ?case by simp
next
  case (3 p q ps)
  show ?case
  proof
    assume c: "contiguous (p # q # ps)"
    show "\<forall>i. Suc i < length (p # q # ps) \<longrightarrow> snd ((p # q # ps) ! i) = fst ((p # q # ps) ! Suc i)"
    proof (intro allI impI)
      fix i assume i: "Suc i < length (p # q # ps)"
      show "snd ((p # q # ps) ! i) = fst ((p # q # ps) ! Suc i)"
      proof (cases i)
        case 0 with c show ?thesis by simp
      next
        case (Suc j)
        from c 3 have "\<forall>i. Suc i < length (q # ps) \<longrightarrow> snd ((q # ps) ! i) = fst ((q # ps) ! Suc i)"
          by simp
        with i Suc show ?thesis by simp
      qed
    qed
  next
    assume a: "\<forall>i. Suc i < length (p # q # ps) \<longrightarrow> snd ((p # q # ps) ! i) = fst ((p # q # ps) ! Suc i)"
    from a[rule_format, of 0] have h: "snd p = fst q" by simp
    have "\<forall>i. Suc i < length (q # ps) \<longrightarrow> snd ((q # ps) ! i) = fst ((q # ps) ! Suc i)"
    proof (intro allI impI)
      fix i assume "Suc i < length (q # ps)"
      with a[rule_format, of "Suc i"] show "snd ((q # ps) ! i) = fst ((q # ps) ! Suc i)" by simp
    qed
    with 3 h show "contiguous (p # q # ps)" by simp
  qed
qed

lemma slice_append:
  "a \<le> c \<Longrightarrow> c \<le> d \<Longrightarrow> py_slice xs a c @ py_slice xs c d = py_slice xs a d"
proof -
  assume ac: "a \<le> c" and cd: "c \<le> d"
  have t: "take d xs = take c xs @ drop c (take d xs)"
    using cd by (metis append_take_drop_id min.absorb1 take_take)
  have "drop a (take d xs) = drop a (take c xs @ drop c (take d xs))"
    using t by simp
  also have "\<dots> = drop a (take c xs) @ drop (a - length (take c xs)) (drop c (take d xs))"
    by simp
  also have "drop (a - length (take c xs)) (drop c (take d xs)) = drop c (take d xs)"
  proof (cases "c \<le> length xs")
    case True with ac show ?thesis by simp
  next
    case False
    then have "drop c (take d xs) = []" by simp
    then show ?thesis by simp
  qed
  finally show ?thesis by (simp add: py_slice_def)
qed

lemma concat_slices:
  assumes "\<And>k. k < j \<Longrightarrow> b k \<le> b (Suc k)"
  shows "concat (map (\<lambda>k. py_slice xs (b k) (b (Suc k))) [0..<j]) = py_slice xs (b 0) (b j)"
  using assms
proof (induction j)
  case 0
  show ?case by (simp add: py_slice_def)
next
  case (Suc j)
  have step: "b k \<le> b (Suc k)" if "k < Suc j" for k
    using Suc.prems that by blast
  have mono: "b 0 \<le> b j"
  proof -
    have "i \<le> j \<Longrightarrow> b 0 \<le> b i" for i
    proof (induction i)
      case 0 show ?case by simp
    next
      case (Suc i)
      then have "b 0 \<le> b i" by simp
      moreover have "b i \<le> b (Suc i)" using step[of i] Suc.prems by simp
      ultimately show ?case by simp
    qed
    then show ?thesis by simp
  qed
  have ih: "concat (map (\<lambda>k. py_slice xs (b k) (b (Suc k))) [0..<j]) = py_slice xs (b 0) (b j)"
    using Suc.IH step by simp
  have "concat (map (\<lambda>k. py_slice xs (b k) (b (Suc k))) [0..<Suc j])
        = py_slice xs (b 0) (b j) @ py_slice xs (b j) (b (Suc j))"
    using ih by simp
  also have "\<dots> = py_slice xs (b 0) (b (Suc j))"
    using mono step[of j] by (simp add: slice_append)
  finally show ?case .
qed

lemma zip_butlast_tl_upt:
  "zip (butlast (map f [0..<m])) (tl (map f [0..<m])) = map (\<lambda>k. (f k, f (Suc k))) [0..<m - 1]"
proof (rule nth_equalityI)
  show "length (zip (butlast (map f [0..<m])) (tl (map f [0..<m]))) = length (map (\<lambda>k. (f k, f (Suc k))) [0..<m - 1])"
    by simp
next
  fix i assume "i < length (zip (butlast (map f [0..<m])) (tl (map f [0..<m])))"
  then have i: "i < m - 1" by simp
  then have "butlast (map f [0..<m]) ! i = f i"
    by (simp add: nth_butlast)
  moreover from i have "tl (map f [0..<m]) ! i = f (Suc i)"
    by (simp add: nth_tl)
  ultimately show "zip (butlast (map f [0..<m])) (tl (map f [0..<m])) ! i = map (\<lambda>k. (f k, f (Suc k))) [0..<m - 1] ! i"
    using i by simp
qed


lemma chunk_offsets_explicit:
  assumes n: "4 \<le> length xs"
    and s: "s = length xs div 4"
    and m: "m = (length xs + s - 1) div s"
  shows "chunk_offsets xs =
           Inr (map (\<lambda>k. (k * s, if Suc k < m - 1 then Suc k * s else length xs)) [0..<m - 1])"
    and "0 < s" and "2 \<le> m" and "\<And>k. k < m \<longleftrightarrow> k * s < length xs"
proof -
  show s0: "0 < s" using n s by simp
  have iff: "k < m \<longleftrightarrow> k * s < length xs" for k
    using range_len_iff[OF s0, of k "length xs" 0] m by simp
  then show "\<And>k. k < m \<longleftrightarrow> k * s < length xs" .
  have "s < length xs" using n s by simp
  then have "1 < m" using iff[of 1] by simp
  then show m2: "2 \<le> m" by simp
  let ?r = "map (\<lambda>k. k * s) [0..<m]"
  let ?co = "map (\<lambda>k. (k * s, Suc k * s)) [0..<m - 1]"
  have r: "py_range 0 (length xs) s = Inr ?r"
    using s0 m by (simp add: py_range_def)
  have co: "zip (butlast ?r) (tl ?r) = ?co"
    by (rule zip_butlast_tl_upt)
  have ne: "?co \<noteq> []" using m2 by simp
  have len: "length ?co - 1 = m - 2" by simp
  have upd: "?co[m - 2 := (fst (?co ! (m - 2)), length xs)]
             = map (\<lambda>k. (k * s, if Suc k < m - 1 then Suc k * s else length xs)) [0..<m - 1]"
  proof (rule nth_equalityI)
    show "length (?co[m - 2 := (fst (?co ! (m - 2)), length xs)])
          = length (map (\<lambda>k. (k * s, if Suc k < m - 1 then Suc k * s else length xs)) [0..<m - 1])"
      by simp
  next
    fix i assume "i < length (?co[m - 2 := (fst (?co ! (m - 2)), length xs)])"
    then have i: "i < m - 1" by simp
    show "?co[m - 2 := (fst (?co ! (m - 2)), length xs)] ! i
          = map (\<lambda>k. (k * s, if Suc k < m - 1 then Suc k * s else length xs)) [0..<m - 1] ! i"
    proof (cases "Suc i < m - 1")
      case True
      then have "i \<noteq> m - 2" by arith
      with i True show ?thesis by simp
    next
      case False
      with i have e: "m - 2 = i" by arith
      show ?thesis unfolding e using i False by simp
    qed
  qed
  have "chunk_offsets xs = Inr (?co[length ?co - 1 := (fst (?co ! (length ?co - 1)), length xs)])"
    unfolding chunk_offsets_def Let_def s[symmetric] r using co ne by simp
  with len upd show "chunk_offsets xs =
           Inr (map (\<lambda>k. (k * s, if Suc k < m - 1 then Suc k * s else length xs)) [0..<m - 1])"
    by simp
qed

lemma chunk_offsets_bounds:
  assumes n: "4 \<le> length xs"
    and s: "s = length xs div 4"
    and m: "m = (length xs + s - 1) div s"
    and b: "b = (\<lambda>k. if k < m - 1 then k * s else length xs)"
  shows "chunk_offsets xs = Inr (map (\<lambda>k. (b k, b (Suc k))) [0..<m - 1])"
    and "\<And>k. k < m - 1 \<Longrightarrow> b k < b (Suc k)"
    and "b 0 = 0" and "b (m - 1) = length xs" and "2 \<le> m"
proof -
  note ex = chunk_offsets_explicit[OF n s m]
  show m2: "2 \<le> m" by (rule ex(3))
  have "map (\<lambda>k. (k * s, if Suc k < m - 1 then Suc k * s else length xs)) [0..<m - 1]
        = map (\<lambda>k. (b k, b (Suc k))) [0..<m - 1]"
    by (rule map_cong) (auto simp: b)
  with ex(1) show "chunk_offsets xs = Inr (map (\<lambda>k. (b k, b (Suc k))) [0..<m - 1])"
    by simp
  show "b 0 = 0" using m2 by (simp add: b)
  show "b (m - 1) = length xs" by (simp add: b)
  show "b k < b (Suc k)" if k: "k < m - 1" for k
  proof (cases "Suc k < m - 1")
    case True
    with k ex(2) show ?thesis by (simp add: b)
  next
    case False
    from k False have e: "m - 1 = Suc k" by arith
    have "(m - 1) * s < length xs" using ex(4)[of "m - 1"] m2 by simp
    then have "Suc k * s < length xs" by (simp only: e)
    then have "k * s < length xs" by simp
    then show ?thesis using k False by (simp add: b)
  qed
qed

text \<open>
  Claim C1. For a feed whose sorted file list has at least 4 entries, the chunking loop
  succeeds; its intervals start at index 0, end at the length of the list, each interval
  starts where the previous one ends, every interval is non-empty (so no two overlap),
  and the concatenation of the chunks, in order, is the original file list.
\<close>

theorem chunk_offsets_partition:
  assumes "4 \<le> length xs"
  shows "\<exists>co cs. chunk_offsets xs = Inr co \<and> chunks xs = Inr cs \<and> co \<noteq> []
           \<and> fst (hd co) = 0 \<and> snd (last co) = length xs \<and> contiguous co
           \<and> list_all (\<lambda>(start, stop). start < stop) co
           \<and> length cs = length co \<and> concat cs = xs"
proof -
  define s where "s = length xs div 4"
  define m where "m = (length xs + s - 1) div s"
  define b where "b = (\<lambda>k. if k < m - 1 then k * s else length xs)"
  define co where "co = map (\<lambda>k. (b k, b (Suc k))) [0..<m - 1]"
  define cs where "cs = map (\<lambda>(start, stop). py_slice xs start stop) co"
  note bd = chunk_offsets_bounds[OF assms s_def m_def b_def]
  have co: "chunk_offsets xs = Inr co" using bd(1) by (simp add: co_def)
  then have cs: "chunks xs = Inr cs" by (simp add: chunks_def cs_def)
  have m2: "2 \<le> m" by (rule bd(5))
  then have upt: "[0..<m - 1] \<noteq> []" by simp
  have ne: "co \<noteq> []" using upt by (simp add: co_def)
  have hd0: "hd [0..<m - 1] = 0" using m2 by (simp add: hd_upt)
  have "fst (hd co) = b 0" using upt hd0 by (simp add: co_def hd_map)
  then have h: "fst (hd co) = 0" using bd(3) by simp
  have "last [0..<m - 1] = m - 2" using m2 by (simp add: last_upt)
  then have "snd (last co) = b (Suc (m - 2))" using upt by (simp add: co_def last_map)
  moreover have "Suc (m - 2) = m - 1" using m2 by simp
  ultimately have l: "snd (last co) = length xs" using bd(4) by simp
  have c: "contiguous co" by (simp add: contiguous_iff co_def)
  have p: "list_all (\<lambda>(start, stop). start < stop) co"
    using bd(2) by (simp add: co_def list_all_iff)
  have "cs = map (\<lambda>k. py_slice xs (b k) (b (Suc k))) [0..<m - 1]"
    by (simp add: cs_def co_def)
  then have "concat cs = py_slice xs (b 0) (b (m - 1))"
    using concat_slices[of "m - 1" b xs] bd(2) by (simp add: less_imp_le)
  then have cc: "concat cs = xs" using bd(3) bd(4) by (simp add: py_slice_def)
  have "length cs = length co" by (simp add: cs_def)
  with co cs ne h l c p cc show ?thesis by blast
qed

theorem chunk_offsets_partition_witness:
  "\<exists>co cs. chunk_offsets ''abcdefg'' = Inr co \<and> chunks ''abcdefg'' = Inr cs \<and> co \<noteq> []
     \<and> fst (hd co) = 0 \<and> snd (last co) = length ''abcdefg'' \<and> contiguous co
     \<and> list_all (\<lambda>(start, stop). start < stop) co
     \<and> length cs = length co \<and> concat cs = ''abcdefg''"
  using chunk_offsets_partition[of "''abcdefg''"] by simp

text \<open>
  Claim C5. The chunking computation returns chunks exactly for feeds with at least 4
  files: with fewer than 4 files the step size is 0 and the first range construction
  raises ValueError, so no chunk is produced; with 4 files or more it returns a non-empty
  list of chunks.
\<close>

theorem chunks_total_iff:
  "(length xs < 4 \<longrightarrow> length xs div 4 = 0 \<and> chunk_offsets xs = Inl ValueError
                       \<and> chunks xs = Inl ValueError)
   \<and> (4 \<le> length xs \<longrightarrow> (\<exists>cs. chunks xs = Inr cs \<and> cs \<noteq> []))"
proof (intro conjI impI)
  assume "length xs < 4"
  then show "length xs div 4 = 0" by simp
  then show co: "chunk_offsets xs = Inl ValueError"
    by (simp add: chunk_offsets_def py_range_def)
  then show "chunks xs = Inl ValueError" by (simp add: chunks_def)
next
  assume n: "4 \<le> length xs"
  define s where "s = length xs div 4"
  define m where "m = (length xs + s - 1) div s"
  note ex = chunk_offsets_explicit[OF n s_def m_def]
  from ex(1) ex(3) show "\<exists>cs. chunks xs = Inr cs \<and> cs \<noteq> []"
    by (simp add: chunks_def)
qed

theorem chunks_total_iff_witness:
  "chunks ''abc'' = Inl ValueError \<and> (\<exists>cs. chunks ''abcd'' = Inr cs \<and> cs \<noteq> [])"
  using chunks_total_iff[of "''abc''"] chunks_total_iff[of "''abcd''"] by simp

lemma chunk_count_m:
  assumes n: "4 \<le> length xs" and ex: "length xs \<notin> {6, 7, 11}"
    and s: "s = length xs div 4"
    and m: "m = (length xs + s - 1) div s"
  shows "m - 1 = (if 4 dvd length xs then 3 else 4)"
proof -
  note e = chunk_offsets_explicit[OF n s m]
  have iff: "k < m \<longleftrightarrow> k * s < length xs" for k by (rule e(4))
  show ?thesis
  proof (cases "4 dvd length xs")
    case True
    then have eq: "length xs = 4 * s" using s by simp
    have "3 < m" using iff[of 3] eq e(2) by simp
    moreover have "\<not> 4 < m" using iff[of 4] eq by simp
    ultimately show ?thesis using True by simp
  next
    case False
    then have "4 * s < length xs" using s by presburger
    then have "4 < m" using iff[of 4] by simp
    moreover have "length xs \<noteq> 6" "length xs \<noteq> 7" "length xs \<noteq> 11"
      using ex by simp_all
    then have "length xs \<le> 5 * s" using n False s by presburger
    then have "\<not> 5 < m" using iff[of 5] by simp
    ultimately show ?thesis using False by simp
  qed
qed

text \<open>
  Away from the lengths 6, 7 and 11 the loop produces 3 chunks when the number of files
  is a multiple of 4 and 4 chunks otherwise, and the final chunk holds all files from its
  start offset on.
\<close>

lemma chunk_count_regular:
  assumes n: "4 \<le> length xs" and ex: "length xs \<notin> {6, 7, 11}"
  shows "\<exists>co cs. chunk_offsets xs = Inr co \<and> chunks xs = Inr cs
           \<and> length cs = (if 4 dvd length xs then 3 else 4)
           \<and> snd (last co) = length xs
           \<and> last cs = drop (fst (last co)) xs"
proof -
  define s where "s = length xs div 4"
  define m where "m = (length xs + s - 1) div s"
  define b where "b = (\<lambda>k. if k < m - 1 then k * s else length xs)"
  define co where "co = map (\<lambda>k. (b k, b (Suc k))) [0..<m - 1]"
  define cs where "cs = map (\<lambda>(start, stop). py_slice xs start stop) co"
  note bd = chunk_offsets_bounds[OF n s_def m_def b_def]
  have co: "chunk_offsets xs = Inr co" using bd(1) by (simp add: co_def)
  then have cs: "chunks xs = Inr cs" by (simp add: chunks_def cs_def)
  have m2: "2 \<le> m" by (rule bd(5))
  then have upt: "[0..<m - 1] \<noteq> []" by simp
  have "length cs = m - 1" by (simp add: cs_def co_def)
  then have len: "length cs = (if 4 dvd length xs then 3 else 4)"
    using chunk_count_m[OF n ex s_def m_def] by simp
  have lu: "last [0..<m - 1] = m - 2" using m2 by (simp add: last_upt)
  have sm: "Suc (m - 2) = m - 1" using m2 by simp
  have lco: "last co = (b (m - 2), length xs)"
    using upt lu sm bd(4) by (simp add: co_def last_map)
  then have l: "snd (last co) = length xs" by simp
  have "co \<noteq> []" using upt by (simp add: co_def)
  then have "last cs = py_slice xs (b (m - 2)) (length xs)"
    using lco by (simp add: cs_def last_map)
  then have lc: "last cs = drop (fst (last co)) xs"
    using lco by (simp add: py_slice_def)
  from co cs len l lc show ?thesis by blast
qed

lemma chunk_count_regular_example:
  "\<exists>co cs. chunk_offsets ''abcdefghi'' = Inr co \<and> chunks ''abcdefghi'' = Inr cs
           \<and> length cs = 4
           \<and> snd (last co) = 9
           \<and> last cs = drop (fst (last co)) ''abcdefghi''"
proof -
  have len: "length ''abcdefghi'' = 9" by simp
  show ?thesis using chunk_count_regular[of "''abcdefghi''"] unfolding len by simp
qed

text \<open>
  Claim C4. For a feed with at least 4 files the loop is to produce exactly 4 chunks when
  the number of files is not a multiple of 4 (the source sets \<^verbatim>\<open>n_segments = 4\<close> and
  its comment says the list "is split into four segments"). The code does not: a feed of
  7 files has step size 1, the range has 7 elements, and the loop produces 6 chunks.
\<close>

theorem chunk_count_failing_input:
  "4 \<le> length ''abcdefg'' \<and> \<not> 4 dvd length ''abcdefg''
   \<and> chunks ''abcdefg'' = Inr [''a'', ''b'', ''c'', ''d'', ''e'', ''fg'']
   \<and> length [''a'', ''b'', ''c'', ''d'', ''e'', ''fg''] = 6"
  by code_simp

text \<open>The lengths 6 and 11 give 5 chunks each.\<close>

lemma chunk_count_exceptions:
  "chunks ''abcdef'' = Inr [''a'', ''b'', ''c'', ''d'', ''ef'']"
  "chunks ''abcdefghijk'' = Inr [''ab'', ''cd'', ''ef'', ''gh'', ''ijk'']"
  by code_simp+

section \<open>Properties of the grouping by feed\<close>








lemma feed_message_map_example:
  "feed_message_map [''ace'', ''7'']
     [''gtfs_7_20190601_042000.gtfs'', ''gtfs_ace_20190601_042000.gtfs'',
      ''gtfs_7_20190601_041000.gtfs''] ''7''
   = Some [''./data/20190601/gtfs_7_20190601_041000.gtfs'',
           ''./data/20190601/gtfs_7_20190601_042000.gtfs'']"
  by code_simp

section \<open>Properties of the parsing loop\<close>

lemma read_messages_acc:
  "fold (\<lambda>filename messages. messages @ [read_file filename]) chunk acc = acc @ map read_file chunk"
  by (induction chunk arbitrary: acc) auto

lemma read_messages_map: "read_messages read_file chunk = map read_file chunk"
  by (simp add: read_messages_def read_messages_acc)

lemma parse_chunks_acc:
  "parse_chunks read_file logify cs (a, b, c)
     = (a @ map (\<lambda>ch. fst (logify (map read_file ch))) cs,
        b @ map (\<lambda>ch. fst (snd (logify (map read_file ch)))) cs,
        c @ map (\<lambda>ch. snd (snd (logify (map read_file ch)))) cs)"
  by (induction cs arbitrary: a b c) (auto simp: read_messages_map case_prod_beta Let_def)

text \<open>
  Claim C6. The parse errors of a feed are data: the run of one feed stops only where
  \<open>merge_logbooks\<close> fails, which receives the logbooks and timestamps and never the parse
  errors; otherwise the parse-error output of the feed is the concatenation, in chunk
  order, of the parse-error sequences returned by the \<open>logify\<close> call of each chunk.
\<close>

theorem parse_errors_concat:
  "process_feed read_file logify merge_logbooks chunk_list =
     (case merge_logbooks (map (\<lambda>chunk. (fst (logify (map read_file chunk)),
                                           fst (snd (logify (map read_file chunk))))) chunk_list) of
        Inl e \<Rightarrow> Inl e
      | Inr (logbook, ts) \<Rightarrow>
          Inr (logbook, concat (map (\<lambda>chunk. snd (snd (logify (map read_file chunk)))) chunk_list)))"
  by (simp add: process_feed_def parse_chunks_acc zip_map_map zip_same_conv_map comp_def)

theorem parse_errors_concat_witness:
  "process_feed id (\<lambda>ms. (length ms, [length ms], filter (\<lambda>m. m = []) ms))
      (\<lambda>ps. Inr (sum_list (map fst ps), concat (map snd ps))) [[''a'', ''''], [''b'', '''', ''c'']]
   = Inr (5, ['''', ''''])"
  using parse_errors_concat[of id "\<lambda>ms. (length ms, [length ms], filter (\<lambda>m. m = []) ms)"
      "\<lambda>ps. Inr (sum_list (map fst ps), concat (map snd ps))" "[[''a'', ''''], [''b'', '''', ''c'']]"]
  by simp

section \<open>Properties of the stop-name lookup\<close>




lemma get_stop_name_duplicate_label:
  "get_stop_name_for_stop_id [(''101'', ''A''), (''101'', ''B'')] ''101'' = Some (Series [''A'', ''B''])"
  by code_simp

section \<open>Properties of the logbook builder\<close>

lemma apply_update_finalized: "finalized_time r = Some t \<Longrightarrow> apply_update r u = r"
  by (simp add: apply_update_def)

lemma apply_update_seq: "rec_stop_sequence (apply_update r u) = rec_stop_sequence r"
  by (simp add: apply_update_def split: option.splits)

lemma find_revise_first:
  assumes "find (\<lambda>r. rec_stop_sequence r = sq) rs = Some r" and "finalized_time r = Some t"
  shows "find (\<lambda>r. rec_stop_sequence r = sq) (revise_first u rs) = Some r"
  using assms
proof (induction rs)
  case Nil
  then show ?case by simp
next
  case (Cons r0 rs)
  show ?case
  proof (cases "rec_stop_sequence r0 = sq")
    case True
    with Cons.prems have "r0 = r" by simp
    with Cons.prems(2) have "apply_update r0 u = r0" by (simp add: apply_update_finalized)
    with True \<open>r0 = r\<close> show ?thesis by simp
  next
    case False
    with Cons.prems have "find (\<lambda>r. rec_stop_sequence r = sq) rs = Some r" by simp
    with Cons.IH Cons.prems(2) False show ?thesis by (simp add: apply_update_seq)
  qed
qed

lemma find_insort_key:
  "\<not> P x \<Longrightarrow> find P (insort_key f x rs) = find P rs"
  by (induction rs) auto

lemma fold_update_keeps:
  assumes "find_record L tid sq = Some r" and "finalized_time r = Some t"
  shows "find_record (fold_update L u) tid sq = Some r"
proof (cases "trip_id u = tid")
  case False
  with assms(1) show ?thesis by (simp add: find_record_def fold_update_def Let_def)
next
  case True
  from assms(1) obtain rs where rs: "L tid = Some rs"
    and f: "find (\<lambda>r. rec_stop_sequence r = sq) rs = Some r"
    by (auto simp: find_record_def split: option.splits)
  show ?thesis
  proof (cases "find (\<lambda>r. rec_stop_sequence r = stop_sequence u) rs")
    case (Some r1)
    with True rs find_revise_first[OF f assms(2), of u] show ?thesis
      by (simp add: find_record_def fold_update_def Let_def)
  next
    case None
    from f have "rec_stop_sequence r = sq" and "r \<in> set rs"
      by (auto simp: find_Some_iff)
    with None have "stop_sequence u \<noteq> sq" by (auto simp: find_None_iff)
    then have "\<not> rec_stop_sequence (apply_update (new_record u) u) = sq"
      by (simp add: apply_update_seq new_record_def)
    then have "find (\<lambda>r. rec_stop_sequence r = sq)
                 (insort_key rec_stop_sequence (apply_update (new_record u) u) rs) = Some r"
      using f by (simp add: find_insort_key)
    with True rs None show ?thesis
      by (simp add: find_record_def fold_update_def Let_def)
  qed
qed

lemma fold_updates_keep:
  assumes "find_record L tid sq = Some r" and "finalized_time r = Some t"
  shows "find_record (fold (\<lambda>u L'. fold_update L' u) us L) tid sq = Some r"
  using assms by (induction us arbitrary: L) (simp_all add: fold_update_keeps)

lemma fold_snapshots_keep:
  assumes "find_record L tid sq = Some r" and "finalized_time r = Some t"
  shows "find_record (fold_snapshots L snaps) tid sq = Some r"
  using assms unfolding fold_snapshots_def
  by (induction snaps arbitrary: L) (simp_all add: fold_snapshot_def fold_updates_keep)

lemma fold_snapshots_append:
  "fold_snapshots L (xs @ ys) = fold_snapshots (fold_snapshots L xs) ys"
  by (simp add: fold_snapshots_def)

text \<open>
  The first scenario of section 8 of the specification: three snapshots for trip T1 leave
  stop sequence 1 finalized at 108 with status \<open>Arrived\<close> and stop sequence 2
  \<open>Scheduled\<close> with last seen estimate 140.
\<close>

lemma scenario_T1:
  "fold_snapshots Map.empty
     [\<lparr>timestamp = 100, updates = [\<lparr>trip_id = ''T1'', stop_id = ''S1'', stop_sequence = 1,
        arrival_estimate = Some 110, departure_estimate = None, is_observed = False\<rparr>]\<rparr>,
      \<lparr>timestamp = 105, updates = [\<lparr>trip_id = ''T1'', stop_id = ''S1'', stop_sequence = 1,
        arrival_estimate = Some 108, departure_estimate = None, is_observed = True\<rparr>]\<rparr>,
      \<lparr>timestamp = 110, updates = [\<lparr>trip_id = ''T1'', stop_id = ''S2'', stop_sequence = 2,
        arrival_estimate = Some 140, departure_estimate = None, is_observed = False\<rparr>]\<rparr>] ''T1''
   = Some [\<lparr>rec_trip_id = ''T1'', rec_stop_id = ''S1'', rec_stop_sequence = 1,
        first_seen_estimate = Some 110, last_seen_estimate = Some 110,
        finalized_time = Some 108, status = Arrived\<rparr>,
      \<lparr>rec_trip_id = ''T1'', rec_stop_id = ''S2'', rec_stop_sequence = 2,
        first_seen_estimate = Some 140, last_seen_estimate = Some 140,
        finalized_time = None, status = Scheduled\<rparr>]"
  by code_simp

text \<open>
  Claim C9. Once some snapshot of a sequence has set the \<open>finalized_time\<close> of a record,
  folding any further snapshots of the sequence leaves that \<open>finalized_time\<close> as it is.
\<close>

theorem finalized_time_monotonic:
  assumes "find_record (fold_snapshots L xs) tid sq = Some r" and "finalized_time r = Some t"
  shows "\<exists>r'. find_record (fold_snapshots L (xs @ ys)) tid sq = Some r' \<and> finalized_time r' = Some t"
  using fold_snapshots_keep[OF assms, of ys] assms(2) by (simp add: fold_snapshots_append)

theorem finalized_time_monotonic_witness:
  "\<exists>r'. find_record (fold_snapshots Map.empty
           ([\<lparr>timestamp = 100, updates = [\<lparr>trip_id = ''T1'', stop_id = ''S1'', stop_sequence = 1,
        arrival_estimate = Some 110, departure_estimate = None, is_observed = False\<rparr>]\<rparr>,
             \<lparr>timestamp = 105, updates = [\<lparr>trip_id = ''T1'', stop_id = ''S1'', stop_sequence = 1,
        arrival_estimate = Some 108, departure_estimate = None, is_observed = True\<rparr>]\<rparr>]
            @ [\<lparr>timestamp = 110, updates = [\<lparr>trip_id = ''T1'', stop_id = ''S2'', stop_sequence = 2,
        arrival_estimate = Some 140, departure_estimate = None, is_observed = False\<rparr>]\<rparr>])) ''T1'' 1 = Some r'
      \<and> finalized_time r' = Some 108"
proof -
  let ?xs = "[\<lparr>timestamp = 100, updates = [\<lparr>trip_id = ''T1'', stop_id = ''S1'', stop_sequence = 1,
        arrival_estimate = Some 110, departure_estimate = None, is_observed = False\<rparr>]\<rparr>,
      \<lparr>timestamp = 105, updates = [\<lparr>trip_id = ''T1'', stop_id = ''S1'', stop_sequence = 1,
        arrival_estimate = Some 108, departure_estimate = None, is_observed = True\<rparr>]\<rparr>]"
  let ?r = "\<lparr>rec_trip_id = ''T1'', rec_stop_id = ''S1'', rec_stop_sequence = 1,
        first_seen_estimate = Some 110, last_seen_estimate = Some 110,
        finalized_time = Some 108, status = Arrived\<rparr>"
  have h: "find_record (fold_snapshots Map.empty ?xs) ''T1'' 1 = Some ?r"
    by code_simp
  have t: "finalized_time ?r = Some 108"
    by simp
  show ?thesis
    by (rule finalized_time_monotonic[OF h t])
qed

section \<open>Properties of the cancellation cutter\<close>

lemma cut_trip_subset: "set (cut_trip rs) \<subseteq> set rs"
  by (auto simp: cut_trip_def)

lemma is_cancelled_mono:
  "set rs' \<subseteq> set rs \<Longrightarrow> is_cancelled rs' r \<Longrightarrow> is_cancelled rs r"
  by (auto simp: is_cancelled_def list_ex_iff)

lemma cut_trip_idem: "cut_trip (cut_trip rs) = cut_trip rs"
proof -
  have "\<forall>r \<in> set (cut_trip rs). \<not> is_cancelled (cut_trip rs) r"
  proof
    fix r assume "r \<in> set (cut_trip rs)"
    then have "\<not> is_cancelled rs r" by (simp add: cut_trip_def)
    then show "\<not> is_cancelled (cut_trip rs) r"
      using is_cancelled_mono[OF cut_trip_subset, of rs r] by blast
  qed
  then have "filter (\<lambda>r. \<not> is_cancelled (cut_trip rs) r) (cut_trip rs) = cut_trip rs"
    by (simp only: filter_True)
  then show ?thesis by (simp add: cut_trip_def[of "cut_trip rs"])
qed

text \<open>
  The last two scenarios of section 8 of the specification: a trip with stop sequences 1
  and 3 finalized and no record for 2 is left as it is, and the \<open>Scheduled\<close> record of
  stop sequence 2 before a finalized stop sequence 3 is removed.
\<close>

lemma scenario_T2:
  "cut_trip [\<lparr>rec_trip_id = ''T2'', rec_stop_id = ''S1'', rec_stop_sequence = 1,
        first_seen_estimate = Some 100, last_seen_estimate = Some 100,
        finalized_time = Some 101, status = Arrived\<rparr>,
      \<lparr>rec_trip_id = ''T2'', rec_stop_id = ''S3'', rec_stop_sequence = 3,
        first_seen_estimate = Some 130, last_seen_estimate = Some 130,
        finalized_time = Some 131, status = Arrived\<rparr>]
   = [\<lparr>rec_trip_id = ''T2'', rec_stop_id = ''S1'', rec_stop_sequence = 1,
        first_seen_estimate = Some 100, last_seen_estimate = Some 100,
        finalized_time = Some 101, status = Arrived\<rparr>,
      \<lparr>rec_trip_id = ''T2'', rec_stop_id = ''S3'', rec_stop_sequence = 3,
        first_seen_estimate = Some 130, last_seen_estimate = Some 130,
        finalized_time = Some 131, status = Arrived\<rparr>]"
  by code_simp

lemma scenario_T3:
  "cut_trip [\<lparr>rec_trip_id = ''T3'', rec_stop_id = ''S2'', rec_stop_sequence = 2,
        first_seen_estimate = Some 120, last_seen_estimate = Some 120,
        finalized_time = None, status = Scheduled\<rparr>,
      \<lparr>rec_trip_id = ''T3'', rec_stop_id = ''S3'', rec_stop_sequence = 3,
        first_seen_estimate = Some 130, last_seen_estimate = Some 130,
        finalized_time = Some 131, status = Arrived\<rparr>]
   = [\<lparr>rec_trip_id = ''T3'', rec_stop_id = ''S3'', rec_stop_sequence = 3,
        first_seen_estimate = Some 130, last_seen_estimate = Some 130,
        finalized_time = Some 131, status = Arrived\<rparr>]"
  by code_simp

text \<open>
  Claim C10. Cutting the cancellations of a logbook twice gives the same logbook as cutting
  them once.
\<close>

theorem cut_cancellations_idempotent:
  "cut_cancellations (cut_cancellations L) = cut_cancellations L"
proof
  fix tid
  show "cut_cancellations (cut_cancellations L) tid = cut_cancellations L tid"
    by (cases "L tid") (simp_all add: cut_cancellations_def cut_trip_idem)
qed

theorem cut_cancellations_idempotent_witness:
  "cut_cancellations (cut_cancellations
     [''T3'' \<mapsto> [\<lparr>rec_trip_id = ''T3'', rec_stop_id = ''S2'', rec_stop_sequence = 2,
        first_seen_estimate = Some 120, last_seen_estimate = Some 120,
        finalized_time = None, status = Scheduled\<rparr>,
      \<lparr>rec_trip_id = ''T3'', rec_stop_id = ''S3'', rec_stop_sequence = 3,
        first_seen_estimate = Some 130, last_seen_estimate = Some 130,
        finalized_time = Some 131, status = Arrived\<rparr>]])
   = cut_cancellations
     [''T3'' \<mapsto> [\<lparr>rec_trip_id = ''T3'', rec_stop_id = ''S2'', rec_stop_sequence = 2,
        first_seen_estimate = Some 120, last_seen_estimate = Some 120,
        finalized_time = None, status = Scheduled\<rparr>,
      \<lparr>rec_trip_id = ''T3'', rec_stop_id = ''S3'', rec_stop_sequence = 3,
        first_seen_estimate = Some 130, last_seen_estimate = Some 130,
        finalized_time = Some 131, status = Arrived\<rparr>]]"
  by (rule cut_cancellations_idempotent)

section \<open>Properties of the names of the script\<close>

lemma pd_not_bound_before: "''pd'' \<notin> set (concat (map stores before_export))"
  by code_simp

lemma pd_not_builtin: "''pd'' \<notin> set builtins"
  by code_simp

text \<open>
  Run from the empty namespace, with every loop body taken once, the script performs
  every statement before line 124 and stops there on the name \<^verbatim>\<open>pd\<close>.
\<close>

lemma whole_script:
  "run_stmts [] (before_export @ export_stage)
   = (map line before_export, Inl (NameError ''pd''))"
  by code_simp

text \<open>
  Claim C3. No statement of the script binds the name \<^verbatim>\<open>pd\<close>, and it is no builtin.
  So in every namespace that an execution can have built on reaching the export stage
  (the names bound by some of the statements before it), the read of the stops table at
  line 124 raises NameError for \<^verbatim>\<open>pd\<close>, and no statement of the export stage is
  performed: neither the stop-name annotation (lines 135 to 139) nor the CSV export
  (line 141).
\<close>

theorem stops_read_raises_NameError:
  "''pd'' \<notin> set (concat (map stores (before_export @ export_stage)))
   \<and> ''pd'' \<notin> set builtins
   \<and> (set ns \<subseteq> set (concat (map stores before_export)) \<longrightarrow>
        run_stmts ns export_stage = ([], Inl (NameError ''pd'')))"
proof (intro conjI impI)
  show "''pd'' \<notin> set (concat (map stores (before_export @ export_stage)))"
    by code_simp
  show b: "''pd'' \<notin> set builtins"
    by (rule pd_not_builtin)
  assume "set ns \<subseteq> set (concat (map stores before_export))"
  with pd_not_bound_before have "''pd'' \<notin> set ns" by blast
  with b have "''pd'' \<notin> set (ns @ builtins)" by simp
  then show "run_stmts ns export_stage = ([], Inl (NameError ''pd''))"
    by (simp add: export_stage_def)
qed

theorem stops_read_raises_NameError_witness:
  "run_stmts (concat (map stores before_export)) export_stage = ([], Inl (NameError ''pd''))"
  using stops_read_raises_NameError[of "concat (map stores before_export)"] by simp

end
